theory Spec2Isabelle
  imports Complex_Main
begin

section \<open>JavaScript values used by SessionsPage.tsx\<close>

text \<open>
  A JavaScript number is \<open>NaN\<close>, one of the two infinities, or a finite value. Finite
  values are kept as exact rationals (every finite double is one) and the arithmetic on them
  is exact: the rounding and overflow of IEEE arithmetic and the sign of zero are not
  modelled. An IEEE operation returns the exact result whenever that result is a double, so
  the two agree wherever every intermediate result is one. Where a rounded intermediate
  result could change a printed digit, a floored integer or the element a comparison
  selects, the theorems below are stated for arguments on which the arithmetic is exact. The
  special values are modelled, because the source's guards (\<open>!x\<close>, \<open>x <= 0\<close>,
  \<open>diff < bestDiff\<close>) behave differently on them.
\<close>

datatype jsnum = NaN | PInf | NInf | Fin rat

text \<open>An optional numeric field or parameter: \<open>undefined\<close>, \<open>null\<close> or a number.\<close>

datatype jsval = Undefined | Null | Num jsnum

fun js_neg :: "jsnum \<Rightarrow> jsnum" where
  "js_neg NaN = NaN"
| "js_neg PInf = NInf"
| "js_neg NInf = PInf"
| "js_neg (Fin x) = Fin (- x)"

fun js_add :: "jsnum \<Rightarrow> jsnum \<Rightarrow> jsnum" where
  "js_add NaN _ = NaN"
| "js_add _ NaN = NaN"
| "js_add PInf NInf = NaN"
| "js_add NInf PInf = NaN"
| "js_add PInf _ = PInf"
| "js_add _ PInf = PInf"
| "js_add NInf _ = NInf"
| "js_add _ NInf = NInf"
| "js_add (Fin x) (Fin y) = Fin (x + y)"

definition js_sub :: "jsnum \<Rightarrow> jsnum \<Rightarrow> jsnum" where
  "js_sub a b = js_add a (js_neg b)"

definition signed_inf :: "bool \<Rightarrow> jsnum" where
  "signed_inf negative = (if negative then NInf else PInf)"

fun js_mul :: "jsnum \<Rightarrow> jsnum \<Rightarrow> jsnum" where
  "js_mul NaN _ = NaN"
| "js_mul _ NaN = NaN"
| "js_mul (Fin x) (Fin y) = Fin (x * y)"
| "js_mul (Fin x) PInf = (if x = 0 then NaN else signed_inf (x < 0))"
| "js_mul (Fin x) NInf = (if x = 0 then NaN else signed_inf (0 < x))"
| "js_mul PInf (Fin y) = (if y = 0 then NaN else signed_inf (y < 0))"
| "js_mul NInf (Fin y) = (if y = 0 then NaN else signed_inf (0 < y))"
| "js_mul PInf PInf = PInf"
| "js_mul NInf NInf = PInf"
| "js_mul PInf NInf = NInf"
| "js_mul NInf PInf = NInf"

text \<open>Division; a zero divisor is taken as \<open>+0\<close>.\<close>

fun js_div :: "jsnum \<Rightarrow> jsnum \<Rightarrow> jsnum" where
  "js_div NaN _ = NaN"
| "js_div _ NaN = NaN"
| "js_div (Fin x) (Fin y) =
     (if y = 0 then (if x = 0 then NaN else signed_inf (x < 0)) else Fin (x / y))"
| "js_div (Fin x) PInf = Fin 0"
| "js_div (Fin x) NInf = Fin 0"
| "js_div PInf (Fin y) = signed_inf (y < 0)"
| "js_div NInf (Fin y) = signed_inf (0 \<le> y)"
| "js_div PInf PInf = NaN"
| "js_div PInf NInf = NaN"
| "js_div NInf PInf = NaN"
| "js_div NInf NInf = NaN"

text \<open>The relational operators: every comparison with \<open>NaN\<close> is false.\<close>

fun js_lt :: "jsnum \<Rightarrow> jsnum \<Rightarrow> bool" where
  "js_lt NaN _ = False"
| "js_lt _ NaN = False"
| "js_lt PInf _ = False"
| "js_lt _ NInf = False"
| "js_lt NInf _ = True"
| "js_lt _ PInf = True"
| "js_lt (Fin x) (Fin y) = (x < y)"

fun js_le :: "jsnum \<Rightarrow> jsnum \<Rightarrow> bool" where
  "js_le NaN _ = False"
| "js_le _ NaN = False"
| "js_le NInf _ = True"
| "js_le _ PInf = True"
| "js_le PInf _ = False"
| "js_le _ NInf = False"
| "js_le (Fin x) (Fin y) = (x \<le> y)"

definition js_gt :: "jsnum \<Rightarrow> jsnum \<Rightarrow> bool" where
  "js_gt a b = js_lt b a"

definition js_ge :: "jsnum \<Rightarrow> jsnum \<Rightarrow> bool" where
  "js_ge a b = js_le b a"

fun Math_abs :: "jsnum \<Rightarrow> jsnum" where
  "Math_abs NaN = NaN"
| "Math_abs PInf = PInf"
| "Math_abs NInf = PInf"
| "Math_abs (Fin x) = Fin \<bar>x\<bar>"

fun Math_max :: "jsnum \<Rightarrow> jsnum \<Rightarrow> jsnum" where
  "Math_max NaN _ = NaN"
| "Math_max _ NaN = NaN"
| "Math_max a b = (if js_lt a b then b else a)"

fun Math_floor :: "jsnum \<Rightarrow> jsnum" where
  "Math_floor (Fin x) = Fin (of_int \<lfloor>x\<rfloor>)"
| "Math_floor v = v"

text \<open>\<open>Math.round\<close> rounds to the nearest integer, a half towards \<open>+\<infinity>\<close>.\<close>

fun Math_round :: "jsnum \<Rightarrow> jsnum" where
  "Math_round (Fin x) = Fin (of_int \<lfloor>x + 1 / 2\<rfloor>)"
| "Math_round v = v"

text \<open>Truthiness (\<open>!v\<close> is its negation): \<open>undefined\<close>, \<open>null\<close>, \<open>0\<close> and \<open>NaN\<close> are falsy.\<close>

fun truthy :: "jsval \<Rightarrow> bool" where
  "truthy Undefined = False"
| "truthy Null = False"
| "truthy (Num NaN) = False"
| "truthy (Num (Fin x)) = (x \<noteq> 0)"
| "truthy (Num _) = True"

text \<open>
  The numeric conversion that arithmetic and the relational operators apply to an operand:
  \<open>undefined\<close> converts to \<open>NaN\<close> and \<open>null\<close> to \<open>0\<close>.
\<close>

fun ToNumber :: "jsval \<Rightarrow> jsnum" where
  "ToNumber Undefined = NaN"
| "ToNumber Null = Fin 0"
| "ToNumber (Num x) = x"

text \<open>The test of \<open>??\<close>: the left operand is \<open>undefined\<close> or \<open>null\<close>.\<close>

definition nullish :: "jsval \<Rightarrow> bool" where
  "nullish v = (v = Undefined \<or> v = Null)"

subsection \<open>Strings\<close>

text \<open>
  Strings are byte lists. The placeholder of the source is the single character U+2014 (em
  dash); it is kept as its three UTF-8 bytes.
\<close>

definition dash :: string where
  "dash = [CHR 0xE2, CHR 0x80, CHR 0x94]"

definition digit_char :: "nat \<Rightarrow> char" where
  "digit_char d = ''0123456789'' ! (d mod 10)"

fun show_nat :: "nat \<Rightarrow> string" where
  "show_nat n = (if n < 10 then [digit_char n] else show_nat (n div 10) @ [digit_char (n mod 10)])"

declare show_nat.simps [simp del]

definition show_int :: "int \<Rightarrow> string" where
  "show_int i = (if i < 0 then CHR ''-'' # show_nat (nat (- i)) else show_nat (nat i))"

text \<open>
  \<open>Number.prototype.toString\<close>. The source applies it to results of \<open>Math.floor\<close> and
  \<open>Math.round\<close> only, so a finite argument is an integer and is rendered in decimal. That
  is what JavaScript prints for an integer of magnitude below \<open>2\<^sup>5\<^sup>3\<close>; the shortest
  round-trip digits it prints for larger ones, and the exponent form it switches to from
  \<open>10\<^sup>2\<^sup>1\<close> on, are not modelled.
\<close>

fun ToString :: "jsnum \<Rightarrow> string" where
  "ToString NaN = ''NaN''"
| "ToString PInf = ''Infinity''"
| "ToString NInf = ''-Infinity''"
| "ToString (Fin x) = show_int \<lfloor>x\<rfloor>"

text \<open>\<open>String.prototype.padStart\<close>: fill on the left with repetitions of the pad string.\<close>

definition padStart :: "nat \<Rightarrow> string \<Rightarrow> string \<Rightarrow> string" where
  "padStart targetLength padString s =
     (if targetLength \<le> length s \<or> padString = [] then s
      else take (targetLength - length s)
             (concat (replicate (targetLength - length s) padString)) @ s)"

subsection \<open>Date strings\<close>

text \<open>
  An ISO date string is represented by what the source observes of it: whether it is the
  empty string, and the time value \<open>new Date(s).getTime()\<close> gives, which is \<open>NaN\<close> for a string
  that does not parse and a whole number of milliseconds otherwise.
\<close>

datatype datestr = Empty | InvalidDate | is_Instant: Instant (millis: int)

fun getTime :: "datestr \<Rightarrow> jsnum" where
  "getTime (Instant ms) = Fin (of_int ms)"
| "getTime _ = NaN"

section \<open>Derived metrics\<close>

definition minutesBetween :: "datestr \<Rightarrow> datestr \<Rightarrow> jsnum" where
  "minutesBetween aISO bISO =
     (let a = getTime aISO;
          b = getTime bISO
      in Math_max (Fin 0) (js_div (js_sub b a) (Fin 60000)))"

definition paceMinPerKm :: "jsval \<Rightarrow> jsval \<Rightarrow> jsval" where
  "paceMinPerKm distanceKm minutes =
     (if \<not> truthy distanceKm \<or> js_le (ToNumber distanceKm) (Fin 0)
         \<or> \<not> truthy minutes \<or> js_le (ToNumber minutes) (Fin 0)
      then Undefined
      else Num (js_div (ToNumber minutes) (ToNumber distanceKm)))"

definition fmtPace :: "jsval \<Rightarrow> string" where
  "fmtPace minPerKm =
     (if \<not> truthy minPerKm then dash
      else let m = Math_floor (ToNumber minPerKm);
               s = Math_round (js_mul (js_sub (ToNumber minPerKm) m) (Fin 60))
           in ToString m @ '':'' @ padStart 2 ''0'' (ToString s) @ ''/km'')"


section \<open>Data model\<close>

text \<open>
  Modelled from the spec: the types \<open>Session\<close> and \<open>WeatherObservation\<close> of
  \<open>types/session\<close>, which the page imports and which are not among the sources. The fields
  are the ones the spec lists as consumed; an optional numeric field may be \<open>undefined\<close> or
  \<open>null\<close>. The field \<open>id\<close> is written \<open>id'\<close>.
\<close>

record WeatherObservation =
  timestamp :: datestr
  temperature_c :: jsval
  humidity_pct :: jsval
  wind_speed_ms :: jsval
  precipitation_mm :: jsval

record Session =
  id' :: int
  start_time :: datestr
  end_time :: datestr
  sport :: "string option"
  distance_km :: jsval
  calories :: jsval
  avg_hr :: jsval
  steps :: jsval
  spo2_pct :: jsval
  lat :: jsval
  lon :: jsval

text \<open>\<open>UISession\<close>: the session with the optional fields the page adds.\<close>

record UISession = Session +
  coach :: "string option"
  training_type :: "string option"
  vo2max :: jsval
  duration_minutes :: jsval
  pace_min_per_km :: jsval

datatype ColumnKey =
  Col_id | Col_start | Col_end | Col_duration | Col_pace
  | Col_sport | Col_distance | Col_calories | Col_avg_hr | Col_steps
  | Col_spo2 | Col_vo2max | Col_coach | Col_training | Col_weather

text \<open>\<open>Record<ColumnKey, boolean>\<close>: every key has a value.\<close>

type_synonym VisibilitySet = "ColumnKey \<Rightarrow> bool"

fun defaultVisible :: VisibilitySet where
  "defaultVisible Col_id = True"
| "defaultVisible Col_start = True"
| "defaultVisible Col_end = False"
| "defaultVisible Col_duration = True"
| "defaultVisible Col_pace = False"
| "defaultVisible Col_sport = True"
| "defaultVisible Col_distance = True"
| "defaultVisible Col_calories = False"
| "defaultVisible Col_avg_hr = False"
| "defaultVisible Col_steps = False"
| "defaultVisible Col_spo2 = True"
| "defaultVisible Col_vo2max = False"
| "defaultVisible Col_coach = False"
| "defaultVisible Col_training = False"
| "defaultVisible Col_weather = True"

section \<open>Temporal matcher\<close>

text \<open>
  The \<open>for ... of\<close> loop of \<open>pickClosest\<close>, with its two variables \<open>best\<close> and \<open>bestDiff\<close>.
  The difference of two time values is exact here; the source's is exact when it is at most
  \<open>2\<^sup>5\<^sup>3\<close> milliseconds, and rounded to an even number of milliseconds beyond.
\<close>

fun pickClosest_loop ::
  "jsnum \<Rightarrow> WeatherObservation list \<Rightarrow> WeatherObservation \<Rightarrow> jsnum \<Rightarrow> WeatherObservation" where
  "pickClosest_loop target [] best bestDiff = best"
| "pickClosest_loop target (ob # obs) best bestDiff =
     (let diff = Math_abs (js_sub (getTime (timestamp ob)) target)
      in if js_lt diff bestDiff then pickClosest_loop target obs ob diff
         else pickClosest_loop target obs best bestDiff)"

text \<open>
  The argument is \<open>None\<close> for a nullish array (\<open>observations?.length\<close>); the result is
  \<open>None\<close> for \<open>undefined\<close>. The loop runs over the whole array, the first element included.
\<close>

definition pickClosest :: "WeatherObservation list option \<Rightarrow> datestr \<Rightarrow> WeatherObservation option" where
  "pickClosest observations isoTime =
     (case observations of
        None \<Rightarrow> None
      | Some [] \<Rightarrow> None
      | Some (first # rest) \<Rightarrow>
          (let target = getTime isoTime;
               best = first;
               bestDiff = Math_abs (js_sub (getTime (timestamp best)) target)
           in Some (pickClosest_loop target (first # rest) best bestDiff)))"

section \<open>Enrichment\<close>

text \<open>
  \<open>Math.random\<close> is a source of numbers: the state is the sequence of the values still to
  come, a call returns the next one and the rest.
\<close>

type_synonym rng = "nat \<Rightarrow> rat"

definition Math_random :: "rng \<Rightarrow> jsnum \<times> rng" where
  "Math_random g = (Fin (g 0), \<lambda>n. g (Suc n))"

definition coaches :: "string list" where
  "coaches = [''Sarah Eastern'', ''John Mitchell'', ''Linda Carter'']"

definition trainings :: "string list" where
  "trainings = [''Strength'', ''Cardio'', ''Flexibility'', ''Team Practice'', ''Tempo'', ''Intervals'']"

text \<open>
  \<open>table[idx % table.length]\<close>: on an empty table the remainder is \<open>NaN\<close> and the read
  gives \<open>undefined\<close>.
\<close>

definition cyclic_pick :: "'a list \<Rightarrow> nat \<Rightarrow> 'a option" where
  "cyclic_pick table idx = (if table = [] then None else Some (table ! (idx mod length table)))"

text \<open>
  The callback of \<open>data.map\<close>, with the two tables it closes over as parameters. The
  right operand of \<open>??\<close> is evaluated, and a random number drawn, only when the left one is
  nullish; the object literal is evaluated in the order it is written. The sums
  \<open>94 + r * 6\<close> and \<open>45 + r * 20\<close> are exact here; for \<open>r\<close> within a few units in the last
  place of 1 the source's rounded sums reach 100 and 65.
\<close>

definition enrich_row :: "string list \<Rightarrow> string list \<Rightarrow> rng \<Rightarrow> nat \<Rightarrow> Session \<Rightarrow> UISession \<times> rng" where
  "enrich_row coachTable trainingTable g idx s =
     (let duration = minutesBetween (start_time s) (end_time s);
          pace = paceMinPerKm (distance_km s) (Num duration);
          (spo2, g1) =
            (if nullish (spo2_pct s)
             then (let (r, g') = Math_random g
                   in (Num (Math_floor (js_add (Fin 94) (js_mul r (Fin 6)))), g'))
             else (spo2_pct s, g));
          (r2, g2) = Math_random g1
      in (\<lparr> id' = id' s, start_time = start_time s, end_time = end_time s, sport = sport s,
            distance_km = distance_km s, calories = calories s, avg_hr = avg_hr s,
            steps = steps s, spo2_pct = spo2, lat = lat s, lon = lon s,
            coach = cyclic_pick coachTable idx,
            training_type = cyclic_pick trainingTable idx,
            vo2max = Num (Math_floor (js_add (Fin 45) (js_mul r2 (Fin 20)))),
            duration_minutes = Num duration,
            pace_min_per_km = pace \<rparr>, g2))"

text \<open>\<open>Array.prototype.map\<close> with the index, from index \<open>idx\<close> on.\<close>

fun enrich_from ::
  "string list \<Rightarrow> string list \<Rightarrow> nat \<Rightarrow> Session list \<Rightarrow> rng \<Rightarrow> UISession list \<times> rng" where
  "enrich_from coachTable trainingTable idx [] g = ([], g)"
| "enrich_from coachTable trainingTable idx (s # rest) g =
     (let (row, g1) = enrich_row coachTable trainingTable g idx s;
          (rows, g2) = enrich_from coachTable trainingTable (Suc idx) rest g1
      in (row # rows, g2))"

definition enriched :: "Session list \<Rightarrow> rng \<Rightarrow> UISession list" where
  "enriched data g = fst (enrich_from coaches trainings 0 data g)"

section \<open>Filter\<close>

definition filtered :: "UISession list \<Rightarrow> datestr \<Rightarrow> datestr \<Rightarrow> UISession list" where
  "filtered rows fromDate toDate =
     (if fromDate = Empty \<and> toDate = Empty then rows
      else let from = (if fromDate \<noteq> Empty then getTime fromDate else NInf);
               to = (if toDate \<noteq> Empty then getTime toDate else PInf)
           in filter (\<lambda>r. let t = getTime (start_time r) in js_ge t from \<and> js_le t to) rows)"

section \<open>Column visibility\<close>

text \<open>The updater \<open>toggleCol\<close> hands to \<open>setVisibleCols\<close>.\<close>

definition toggleCol :: "ColumnKey \<Rightarrow> VisibilitySet \<Rightarrow> VisibilitySet" where
  "toggleCol k v = v(k := \<not> v k)"

section \<open>Selection and the weather cache\<close>

text \<open>The component state that \<open>onRowClick\<close> reads and writes.\<close>

record PageState =
  selected :: "UISession option"
  weatherById :: "int \<rightharpoonup> WeatherObservation list"

text \<open>
  \<open>onRowClick\<close> up to its \<open>await\<close>: the selection is set, and the weather of the session is
  requested when the cache holds nothing for its id. The second component is the request
  made, if any.
\<close>

definition onRowClick_request :: "UISession \<Rightarrow> PageState \<Rightarrow> PageState \<times> int option" where
  "onRowClick_request s st =
     (st\<lparr>selected := Some s\<rparr>,
      if weatherById st (id' s) = None then Some (id' s) else None)"

text \<open>
  \<open>onRowClick\<close> after its \<open>await\<close>, on the state current when the request settles: \<open>Inr wx\<close>
  is a resolved request, whose updater inserts \<open>wx\<close>; \<open>Inl e\<close> is a rejected one, which the
  \<open>catch\<close> logs. The second component is what is written to the console.
\<close>

definition onRowClick_settle ::
  "UISession \<Rightarrow> string + WeatherObservation list \<Rightarrow> PageState \<Rightarrow> PageState \<times> string list" where
  "onRowClick_settle s outcome st =
     (case outcome of
        Inr wx \<Rightarrow> (st\<lparr>weatherById := (weatherById st)(id' s \<mapsto> wx)\<rparr>, [])
      | Inl e \<Rightarrow> (st, [''weather fetch failed'']))"

text \<open>
  A whole call with nothing interleaved; \<open>getSessionWeather\<close> gives the outcome of a
  request. The result is the state, the requests made and the console output.
\<close>

definition onRowClick ::
  "(int \<Rightarrow> string + WeatherObservation list) \<Rightarrow> UISession \<Rightarrow> PageState
     \<Rightarrow> PageState \<times> int list \<times> string list" where
  "onRowClick getSessionWeather s st =
     (case onRowClick_request s st of
        (st1, None) \<Rightarrow> (st1, [], [])
      | (st1, Some i) \<Rightarrow>
          (let (st2, logged) = onRowClick_settle s (getSessionWeather i) st1
           in (st2, [i], logged)))"

section \<open>Conditions of the theorems and example values\<close>

text \<open>
  The range of the spec's filter contract, in its words: \<open>lower \<le> t \<le> upper\<close>, an absent
  bound (\<open>None\<close>) unbounded on its side. \<open>bound_input\<close> is the text of the date input for a
  bound: empty when the bound is absent.
\<close>

definition within_range :: "int option \<Rightarrow> int option \<Rightarrow> int \<Rightarrow> bool" where
  "within_range lower upper t =
     ((case lower of None \<Rightarrow> True | Some l \<Rightarrow> l \<le> t)
      \<and> (case upper of None \<Rightarrow> True | Some u \<Rightarrow> t \<le> u))"

definition bound_input :: "int option \<Rightarrow> datestr" where
  "bound_input b = (case b of None \<Rightarrow> Empty | Some t \<Rightarrow> Instant t)"

text \<open>
  The values of \<open>Math.random\<close>, at least 0 and less than 1, short of the last ones below 1:
  for a value of at most \<open>1 - 2\<^sup>-\<^sup>4\<^sup>8\<close> the source's rounded \<open>94 + r * 6\<close> is below 100, as
  the exact sum is.
\<close>

definition random_below_one :: "rng \<Rightarrow> bool" where
  "random_below_one g = (\<forall>n. 0 \<le> g n \<and> g n \<le> 1 - 1 / 2 ^ 48)"

text \<open>
  The finite binary64 numbers: an integer of less than 53 bits times a power of two from
  \<open>2\<^sup>-\<^sup>1\<^sup>0\<^sup>7\<^sup>4\<close> to \<open>2\<^sup>9\<^sup>7\<^sup>1\<close>.
\<close>

definition binary64 :: "rat \<Rightarrow> bool" where
  "binary64 x =
     (\<exists>(m :: int) (k :: nat). \<bar>m\<bar> < 2 ^ 53
        \<and> (k \<le> 1074 \<and> x = of_int m / 2 ^ k \<or> k \<le> 971 \<and> x = of_int m * 2 ^ k))"

text \<open>
  The pace values on which the arithmetic of \<open>fmtPace\<close> is exact in binary64: the pace is a
  double of magnitude below \<open>2\<^sup>5\<^sup>3\<close>, and its fractional part and sixty times that are
  doubles too.
\<close>

definition exact_pace :: "rat \<Rightarrow> bool" where
  "exact_pace x =
     (\<bar>x\<bar> < 2 ^ 53 \<and> binary64 x \<and> binary64 (x - of_int \<lfloor>x\<rfloor>)
      \<and> binary64 ((x - of_int \<lfloor>x\<rfloor>) * 60))"

text \<open>Values on which the theorems below are instantiated.\<close>

definition obs_at :: "int \<Rightarrow> WeatherObservation" where
  "obs_at t = \<lparr> timestamp = Instant t, temperature_c = Undefined, humidity_pct = Undefined,
               wind_speed_ms = Undefined, precipitation_mm = Undefined \<rparr>"

definition session_at :: "int \<Rightarrow> int \<Rightarrow> int \<Rightarrow> jsval \<Rightarrow> jsval \<Rightarrow> Session" where
  "session_at i a b d sp =
     \<lparr> id' = i, start_time = Instant a, end_time = Instant b, sport = None, distance_km = d,
       calories = Undefined, avg_hr = Undefined, steps = Undefined, spo2_pct = sp,
       lat = Undefined, lon = Undefined \<rparr>"

definition row_at :: "int \<Rightarrow> int \<Rightarrow> UISession" where
  "row_at i a =
     \<lparr> id' = i, start_time = Instant a, end_time = Instant a, sport = None,
       distance_km = Undefined, calories = Undefined, avg_hr = Undefined, steps = Undefined,
       spo2_pct = Undefined, lat = Undefined, lon = Undefined, coach = None,
       training_type = None, vo2max = Undefined, duration_minutes = Undefined,
       pace_min_per_km = Undefined \<rparr>"

definition empty_state :: PageState where
  "empty_state = \<lparr> selected = None, weatherById = Map.empty \<rparr>"

section \<open>Properties of the derived metrics\<close>

lemma js_pos_iff: "js_lt (Fin 0) (ToNumber v) \<longleftrightarrow> truthy v \<and> \<not> js_le (ToNumber v) (Fin 0)"
proof (cases v)
  case (Num x)
  then show ?thesis by (cases x) auto
qed simp_all

lemma minutesBetween_Instant:
  "minutesBetween (Instant a) (Instant b) = Fin (max 0 (of_int (b - a) / 60000))"
  by (simp add: minutesBetween_def js_sub_def max_def)

text \<open>
  Claim C6. For two instants the duration is the span from the first to the second in minutes
  (milliseconds over 60000), clamped below at zero: it is never negative, it is zero from an
  instant to itself, and it is zero when the end precedes the start.
\<close>

theorem minutesBetween_clamped:
  "minutesBetween (Instant a) (Instant b) = Fin (max 0 (of_int (b - a) / 60000))
   \<and> js_le (Fin 0) (minutesBetween (Instant a) (Instant b))
   \<and> minutesBetween (Instant a) (Instant a) = Fin 0
   \<and> (b < a \<longrightarrow> minutesBetween (Instant a) (Instant b) = Fin 0)"
  by (simp add: minutesBetween_Instant max_def)

theorem minutesBetween_clamped_witness:
  "minutesBetween (Instant 0) (Instant 90000) = Fin (3 / 2)
   \<and> minutesBetween (Instant 90000) (Instant 0) = Fin 0"
  using minutesBetween_clamped [of 0 90000] minutesBetween_clamped [of 90000 0]
  by (simp add: max_def)

text \<open>
  Claim C5. The pace is \<open>undefined\<close> unless the distance and the duration are both greater
  than zero, and is then the duration divided by the distance. The function is total on
  every argument, \<open>undefined\<close>, \<open>null\<close>, \<open>NaN\<close> and the infinities included, and
  \<open>undefined\<close> is its only other result. The three values of the spec are as it states them.
\<close>

theorem paceMinPerKm_spec:
  "paceMinPerKm d m =
     (if js_gt (ToNumber d) (Fin 0) \<and> js_gt (ToNumber m) (Fin 0)
      then Num (js_div (ToNumber m) (ToNumber d)) else Undefined)
   \<and> paceMinPerKm (Num (Fin 0)) (Num (Fin 10)) = Undefined
   \<and> paceMinPerKm (Num (Fin 5)) (Num (Fin 0)) = Undefined
   \<and> paceMinPerKm (Num (Fin 5)) (Num (Fin 25)) = Num (Fin 5)"
  by (simp add: paceMinPerKm_def js_gt_def js_pos_iff)

theorem paceMinPerKm_spec_witness:
  "paceMinPerKm (Num (Fin 10)) (Num (Fin 60)) = Num (Fin 6)
   \<and> paceMinPerKm Undefined (Num (Fin 60)) = Undefined
   \<and> paceMinPerKm (Num (Fin (- 3))) (Num (Fin 60)) = Undefined
   \<and> paceMinPerKm (Num (Fin 10)) (Num NaN) = Undefined"
  using paceMinPerKm_spec [of "Num (Fin 10)" "Num (Fin 60)"]
    paceMinPerKm_spec [of Undefined "Num (Fin 60)"]
    paceMinPerKm_spec [of "Num (Fin (- 3))" "Num (Fin 60)"]
    paceMinPerKm_spec [of "Num (Fin 10)" "Num NaN"]
  by (simp add: js_gt_def)







lemma fmtPace_Fin:
  assumes "x \<noteq> 0"
  shows "fmtPace (Num (Fin x)) =
     show_int \<lfloor>x\<rfloor> @ '':'' @
       padStart 2 ''0'' (show_int \<lfloor>(x - of_int \<lfloor>x\<rfloor>) * 60 + 1 / 2\<rfloor>) @ ''/km''"
  using assms by (simp add: fmtPace_def js_sub_def Let_def)


lemma binary64_I:
  "\<bar>m\<bar> < 2 ^ 53 \<Longrightarrow> k \<le> 1074 \<Longrightarrow> x = of_int m / 2 ^ k \<Longrightarrow> binary64 x"
  unfolding binary64_def by blast

lemma frac_dyadic:
  fixes n :: int and k :: nat
  shows "(of_int n / 2 ^ k :: rat) - of_int \<lfloor>of_int n / 2 ^ k :: rat\<rfloor> = of_int (n mod 2 ^ k) / 2 ^ k"
proof -
  have fl: "\<lfloor>of_int n / 2 ^ k :: rat\<rfloor> = n div 2 ^ k"
    using floor_divide_of_int_eq [of n "2 ^ k", where ?'a = rat] by simp
  have "n = (n div 2 ^ k) * 2 ^ k + n mod 2 ^ k"
    by (rule div_mult_mod_eq [symmetric])
  then have "(of_int n :: rat) = of_int (n div 2 ^ k) * 2 ^ k + of_int (n mod 2 ^ k)"
    by (metis of_int_add of_int_mult of_int_numeral of_int_power)
  then show ?thesis
    unfolding fl by (simp add: field_simps)
qed

text \<open>
  The arithmetic is exact on every pace that is a multiple of \<open>2\<^sup>-\<^sup>k\<close> for some
  \<open>k \<le> 49\<close> with a numerator of less than 53 bits; every double from 8 up to \<open>2\<^sup>5\<^sup>3\<close>
  in magnitude is one.
\<close>

lemma exact_pace_dyadic:
  fixes n :: int and k :: nat
  assumes "k \<le> 49" and "\<bar>n\<bar> < 2 ^ 53"
  shows "exact_pace (of_int n / 2 ^ k)"
proof -
  let ?x = "of_int n / 2 ^ k :: rat"
  let ?r = "n mod 2 ^ k"
  have r: "0 \<le> ?r" "?r < 2 ^ k"
    by simp_all
  have "(2 :: int) ^ k \<le> 2 ^ 49"
    using assms(1) by (intro power_increasing) simp_all
  with r have r49: "?r < 2 ^ 49"
    by linarith
  have b1: "binary64 ?x"
    using assms by (intro binary64_I [of n k]) simp_all
  have b2: "binary64 (?x - of_int \<lfloor>?x\<rfloor>)"
    unfolding frac_dyadic using r r49 assms(1) by (intro binary64_I [of ?r k]) simp_all
  have b3: "binary64 ((?x - of_int \<lfloor>?x\<rfloor>) * 60)"
  proof (cases "2 \<le> k")
    case True
    then obtain j where k: "k = Suc (Suc j)"
      by (metis Suc_le_D numeral_2_eq_2 Suc_le_mono)
    have "\<bar>15 * ?r\<bar> < 2 ^ 53"
      using r r49 by simp
    moreover have "j \<le> 1074"
      using assms(1) k by simp
    moreover have "of_int ?r / 2 ^ k * (60 :: rat) = of_int (15 * ?r) / 2 ^ j"
      by (simp add: k field_simps)
    ultimately show ?thesis
      unfolding frac_dyadic by (intro binary64_I [of "15 * ?r" j]) simp_all
  next
    case False
    then have "k = 0 \<or> k = 1" by linarith
    then show ?thesis
    proof
      assume "k = 0"
      then show ?thesis
        unfolding frac_dyadic by (intro binary64_I [of 0 0]) simp_all
    next
      assume k1: "k = 1"
      then have "?r = 0 \<or> ?r = 1" using r by auto
      then show ?thesis
        unfolding frac_dyadic k1
        by (elim disjE; intro binary64_I [of "30 * (n mod 2 ^ 1)" 0]) simp_all
    qed
  qed
  have "\<bar>of_int n :: rat\<bar> * 1 \<le> \<bar>of_int n\<bar> * 2 ^ k"
    by (intro mult_left_mono) simp_all
  then have "\<bar>?x\<bar> \<le> \<bar>of_int n :: rat\<bar>"
    by (simp add: abs_divide divide_le_eq)
  also have "\<dots> < 2 ^ 53"
    using assms(2) by (metis of_int_abs of_int_less_iff of_int_numeral of_int_power)
  finally have "\<bar>?x\<bar> < 2 ^ 53" .
  with b1 b2 b3 show ?thesis
    unfolding exact_pace_def by blast
qed




text \<open>
  Claim C10. A pace whose fractional minutes are at least 119/120 of a minute (59.5 seconds)
  is rendered with the seconds \<open>60\<close> after the unchanged whole minutes, with no carry into the
  minutes: 4.9999 gives \<open>4:60/km\<close>.
\<close>

theorem fmtPace_seconds_60:
  "(x \<noteq> 0 \<and> 119 / 120 \<le> x - of_int \<lfloor>x\<rfloor> \<longrightarrow>
      fmtPace (Num (Fin x)) = show_int \<lfloor>x\<rfloor> @ '':60/km'')
   \<and> truthy (Num (Fin (49999 / 10000)))
   \<and> fmtPace (Num (Fin (49999 / 10000))) = ''4:60/km''"
proof (intro conjI impI)
  assume h: "x \<noteq> 0 \<and> 119 / 120 \<le> x - of_int \<lfloor>x\<rfloor>"
  define f where "f = x - of_int \<lfloor>x\<rfloor>"
  have "f < 1" unfolding f_def by linarith
  moreover have "119 / 120 \<le> f" using h by (simp add: f_def)
  ultimately have "60 \<le> f * 60 + 1 / 2" "f * 60 + 1 / 2 < 61" by linarith+
  then have "\<lfloor>f * 60 + 1 / 2\<rfloor> = 60" by linarith
  then have k: "\<lfloor>(x - of_int \<lfloor>x\<rfloor>) * 60 + 1 / 2\<rfloor> = 60" by (simp add: f_def)
  have "padStart 2 ''0'' (show_int 60) = ''60''" by code_simp
  then show "fmtPace (Num (Fin x)) = show_int \<lfloor>x\<rfloor> @ '':60/km''"
    using h fmtPace_Fin [of x] k by simp
next
  show "truthy (Num (Fin (49999 / 10000)))" by simp
next
  show "fmtPace (Num (Fin (49999 / 10000))) = ''4:60/km''" by code_simp
qed

theorem fmtPace_seconds_60_witness:
  "fmtPace (Num (Fin (1199 / 200))) = ''5:60/km''"
proof -
  have a: "show_int 5 = ''5''" by code_simp
  have c: "\<lfloor>1199 / 200 :: rat\<rfloor> = 5" by code_simp
  have d: "119 / 120 \<le> (1199 / 200 :: rat) - of_int \<lfloor>1199 / 200 :: rat\<rfloor>" by code_simp
  have nz: "(1199 / 200 :: rat) \<noteq> 0" by simp
  from fmtPace_seconds_60 [of "1199 / 200"] nz d
  have "fmtPace (Num (Fin (1199 / 200))) = show_int \<lfloor>1199 / 200 :: rat\<rfloor> @ '':60/km''"
    by blast
  then show ?thesis unfolding c a by simp
qed

section \<open>Column visibility\<close>

text \<open>
  Claim C7. Toggling a key gives a set that differs from the given one at that key only, where
  the boolean is inverted: toggling the same key twice gives the set back, and the value at
  any other key is the one it was.
\<close>

theorem toggleCol_involution:
  "toggleCol k (toggleCol k v) = v
   \<and> toggleCol k v k = (\<not> v k)
   \<and> (\<forall>b. b \<noteq> k \<longrightarrow> toggleCol k v b = v b)"
  by (simp add: toggleCol_def)

theorem toggleCol_involution_witness:
  "toggleCol Col_pace (toggleCol Col_pace defaultVisible) = defaultVisible
   \<and> toggleCol Col_pace defaultVisible Col_pace = True
   \<and> toggleCol Col_pace defaultVisible Col_end = False
   \<and> toggleCol Col_pace defaultVisible Col_id = True"
  using toggleCol_involution [of Col_pace defaultVisible] by simp

section \<open>The weather cache on a failed request\<close>

text \<open>
  Claim C8. When the request for a session's weather is rejected, settling it leaves the
  state it finds, and so the cache, as it is. A call of \<open>onRowClick\<close> whose request fails
  changes the selection only: the cache is the same, it still has no entry for the id, and
  selecting the same session again makes the request again.
\<close>

theorem onRowClick_failure_keeps_cache:
  "fst (onRowClick_settle s (Inl e) st) = st
   \<and> (weatherById st (id' s) = None \<and> getSessionWeather (id' s) = Inl e \<longrightarrow>
        (case onRowClick getSessionWeather s st of
           (st', requests, logged) \<Rightarrow>
             st' = st\<lparr>selected := Some s\<rparr>
             \<and> weatherById st' = weatherById st
             \<and> weatherById st' (id' s) = None
             \<and> requests = [id' s]
             \<and> snd (onRowClick_request s st') = Some (id' s)
             \<and> fst (snd (onRowClick getSessionWeather s st')) = [id' s]))"
  by (simp add: onRowClick_settle_def onRowClick_def onRowClick_request_def)

theorem onRowClick_failure_keeps_cache_witness:
  "weatherById (fst (onRowClick (\<lambda>i. Inl ''503'') (row_at 7 0) empty_state)) = Map.empty
   \<and> fst (snd (onRowClick (\<lambda>i. Inl ''503'') (row_at 7 0) empty_state)) = [7]
   \<and> fst (snd (onRowClick (\<lambda>i. Inl ''503'') (row_at 7 0)
        (fst (onRowClick (\<lambda>i. Inl ''503'') (row_at 7 0) empty_state)))) = [7]"
proof -
  have a: "weatherById empty_state (id' (row_at 7 0)) = None"
    by (simp add: empty_state_def)
  have b: "id' (row_at 7 0) = 7"
    by (simp add: row_at_def)
  from onRowClick_failure_keeps_cache [of "row_at 7 0" "''503''" empty_state "\<lambda>i. Inl ''503''"] a
  show ?thesis
    by (auto simp: b empty_state_def split: prod.splits)
qed

section \<open>The filter\<close>

lemma js_ge_Fin_of_int: "js_ge (Fin (of_int t)) (Fin (of_int l)) = (l \<le> t)"
  by (simp add: js_ge_def)

lemma filtered_row:
  assumes "is_Instant (start_time r)"
  shows "(js_ge (getTime (start_time r)) (if bound_input lower \<noteq> Empty then getTime (bound_input lower) else NInf)
          \<and> js_le (getTime (start_time r)) (if bound_input upper \<noteq> Empty then getTime (bound_input upper) else PInf))
         = within_range lower upper (millis (start_time r))"
proof -
  from assms obtain t where t: "start_time r = Instant t"
    by (cases "start_time r") simp_all
  show ?thesis
    by (cases lower; cases upper) (simp_all add: t bound_input_def within_range_def js_ge_def)
qed

text \<open>
  Claim C2. For rows whose start time is an instant and a range whose bounds are each absent
  or an instant, the filter returns exactly the rows whose start time \<open>t\<close> has
  \<open>lower \<le> t \<le> upper\<close>, in their order, an absent bound being unbounded; and with both bounds
  absent it returns the rows as they are.
\<close>

theorem filtered_spec:
  assumes "\<forall>r \<in> set rows. is_Instant (start_time r)"
  shows "filtered rows (bound_input lower) (bound_input upper) =
           filter (\<lambda>r. within_range lower upper (millis (start_time r))) rows
         \<and> filtered rows Empty Empty = rows"
proof
  show "filtered rows (bound_input lower) (bound_input upper) =
           filter (\<lambda>r. within_range lower upper (millis (start_time r))) rows"
  proof (cases "lower = None \<and> upper = None")
    case True
    then show ?thesis
      by (simp add: filtered_def bound_input_def within_range_def)
  next
    case False
    then have "bound_input lower \<noteq> Empty \<or> bound_input upper \<noteq> Empty"
      by (auto simp: bound_input_def split: option.splits)
    then have "filtered rows (bound_input lower) (bound_input upper) =
        filter (\<lambda>r. js_ge (getTime (start_time r))
                      (if bound_input lower \<noteq> Empty then getTime (bound_input lower) else NInf)
                 \<and> js_le (getTime (start_time r))
                      (if bound_input upper \<noteq> Empty then getTime (bound_input upper) else PInf))
          rows"
      unfolding filtered_def Let_def by auto
    also have "\<dots> = filter (\<lambda>r. within_range lower upper (millis (start_time r))) rows"
      using assms by (intro filter_cong refl filtered_row) blast
    finally show ?thesis .
  qed
next
  show "filtered rows Empty Empty = rows"
    by (simp add: filtered_def)
qed

theorem filtered_spec_witness:
  "filtered [row_at 1 1, row_at 2 5, row_at 3 10] (Instant 5) (Instant 10) = [row_at 2 5, row_at 3 10]
   \<and> filtered [row_at 1 1, row_at 2 5, row_at 3 10] Empty (Instant 5) = [row_at 1 1, row_at 2 5]
   \<and> filtered [row_at 3 10, row_at 1 1] Empty Empty = [row_at 3 10, row_at 1 1]"
proof -
  have i: "\<forall>r \<in> set [row_at 1 1, row_at 2 5, row_at 3 10]. is_Instant (start_time r)"
    "\<forall>r \<in> set [row_at 3 10, row_at 1 1]. is_Instant (start_time r)"
    by (simp_all add: row_at_def)
  have s: "start_time (row_at j t) = Instant t" for j t
    by (simp add: row_at_def)
  show ?thesis
    using filtered_spec [OF i(1), of "Some 5" "Some 10"] filtered_spec [OF i(1), of None "Some 5"]
      filtered_spec [OF i(2), of None None]
    by (simp add: bound_input_def within_range_def s)
qed

section \<open>The temporal matcher\<close>

lemma diff_Instant:
  "is_Instant (timestamp ob) \<Longrightarrow>
     Math_abs (js_sub (getTime (timestamp ob)) (Fin (of_int target)))
       = Fin (of_int \<bar>millis (timestamp ob) - target\<bar>)"
  by (cases "timestamp ob") (simp_all add: js_sub_def)

text \<open>
  The loop, started on a best element with its difference: either no element of the list is
  strictly closer than the best and the best is kept, or the result is the first element of
  the list that is closer than the best and at least as close as every other one.
\<close>

lemma pickClosest_loop_first_minimum:
  assumes "\<forall>ob \<in> set obs. is_Instant (timestamp ob)"
    and "bestDiff = Fin (of_int \<bar>millis (timestamp best) - target\<bar>)"
  shows "(pickClosest_loop (Fin (of_int target)) obs best bestDiff = best
            \<and> (\<forall>ob \<in> set obs. \<bar>millis (timestamp best) - target\<bar> \<le> \<bar>millis (timestamp ob) - target\<bar>))
         \<or> (\<exists>pre r post. obs = pre @ r # post
               \<and> pickClosest_loop (Fin (of_int target)) obs best bestDiff = r
               \<and> \<bar>millis (timestamp r) - target\<bar> < \<bar>millis (timestamp best) - target\<bar>
               \<and> (\<forall>ob \<in> set pre. \<bar>millis (timestamp r) - target\<bar> < \<bar>millis (timestamp ob) - target\<bar>)
               \<and> (\<forall>ob \<in> set post. \<bar>millis (timestamp r) - target\<bar> \<le> \<bar>millis (timestamp ob) - target\<bar>))"
  using assms
proof (induction obs arbitrary: best bestDiff)
  case Nil
  then show ?case by simp
next
  case (Cons a obs)
  let ?d = "\<lambda>ob. \<bar>millis (timestamp ob) - target\<bar>"
  let ?T = "Fin (of_int target)"
  have valid: "\<forall>ob \<in> set obs. is_Instant (timestamp ob)" and va: "is_Instant (timestamp a)"
    using Cons.prems(1) by simp_all
  have da: "Math_abs (js_sub (getTime (timestamp a)) ?T) = Fin (of_int (?d a))"
    using va by (rule diff_Instant)
  show ?case
  proof (cases "?d a < ?d best")
    case True
    then have step: "pickClosest_loop ?T (a # obs) best bestDiff
        = pickClosest_loop ?T obs a (Fin (of_int (?d a)))"
      by (simp add: da Cons.prems(2))
    from Cons.IH [where best = a, OF valid refl]
    show ?thesis
    proof (elim disjE conjE exE)
      assume "pickClosest_loop ?T obs a (Fin (of_int (?d a))) = a"
        and "\<forall>ob \<in> set obs. ?d a \<le> ?d ob"
      with True step have "a # obs = [] @ a # obs
          \<and> pickClosest_loop ?T (a # obs) best bestDiff = a
          \<and> ?d a < ?d best \<and> (\<forall>ob \<in> set []. ?d a < ?d ob) \<and> (\<forall>ob \<in> set obs. ?d a \<le> ?d ob)"
        by simp
      then show ?thesis by blast
    next
      fix pre r post
      assume "obs = pre @ r # post"
        and "pickClosest_loop ?T obs a (Fin (of_int (?d a))) = r"
        and "?d r < ?d a"
        and "\<forall>ob \<in> set pre. ?d r < ?d ob"
        and "\<forall>ob \<in> set post. ?d r \<le> ?d ob"
      with True step have "a # obs = (a # pre) @ r # post
          \<and> pickClosest_loop ?T (a # obs) best bestDiff = r
          \<and> ?d r < ?d best \<and> (\<forall>ob \<in> set (a # pre). ?d r < ?d ob) \<and> (\<forall>ob \<in> set post. ?d r \<le> ?d ob)"
        by simp
      then show ?thesis by blast
    qed
  next
    case False
    then have step: "pickClosest_loop ?T (a # obs) best bestDiff
        = pickClosest_loop ?T obs best bestDiff"
      by (simp add: da Cons.prems(2))
    from Cons.IH [OF valid Cons.prems(2)]
    show ?thesis
    proof (elim disjE conjE exE)
      assume "pickClosest_loop ?T obs best bestDiff = best"
        and "\<forall>ob \<in> set obs. ?d best \<le> ?d ob"
      with False step show ?thesis by simp
    next
      fix pre r post
      assume "obs = pre @ r # post"
        and "pickClosest_loop ?T obs best bestDiff = r"
        and "?d r < ?d best"
        and "\<forall>ob \<in> set pre. ?d r < ?d ob"
        and "\<forall>ob \<in> set post. ?d r \<le> ?d ob"
      with False step have "a # obs = (a # pre) @ r # post
          \<and> pickClosest_loop ?T (a # obs) best bestDiff = r
          \<and> ?d r < ?d best \<and> (\<forall>ob \<in> set (a # pre). ?d r < ?d ob) \<and> (\<forall>ob \<in> set post. ?d r \<le> ?d ob)"
        by simp
      then show ?thesis by blast
    qed
  qed
qed

text \<open>
  Claim C1. Take a non-empty sequence of observations and a target, all of them instants that
  a \<open>Date\<close> holds (at most 8640000000000000 milliseconds from the epoch), every observation at
  most \<open>2\<^sup>5\<^sup>3\<close> milliseconds from the target, so that the source's subtraction is exact.
  Then \<open>pickClosest\<close> returns an element of the sequence at a position such that every
  element before it is strictly farther from the target and every element after it is at
  least as far: its absolute time difference is minimal, and among the elements with the
  minimal difference it is the first in sequence order.
\<close>

theorem pickClosest_first_nearest:
  assumes "observations \<noteq> []"
    and "\<forall>ob \<in> set observations. is_Instant (timestamp ob)
           \<and> \<bar>millis (timestamp ob)\<bar> \<le> 8640000000000000
           \<and> \<bar>millis (timestamp ob) - target\<bar> \<le> 2 ^ 53"
    and "\<bar>target\<bar> \<le> 8640000000000000"
  shows "\<exists>pre r post. observations = pre @ r # post
           \<and> pickClosest (Some observations) (Instant target) = Some r
           \<and> (\<forall>ob \<in> set pre. \<bar>millis (timestamp r) - target\<bar> < \<bar>millis (timestamp ob) - target\<bar>)
           \<and> (\<forall>ob \<in> set post. \<bar>millis (timestamp r) - target\<bar> \<le> \<bar>millis (timestamp ob) - target\<bar>)"
proof -
  let ?d = "\<lambda>ob. \<bar>millis (timestamp ob) - target\<bar>"
  let ?T = "Fin (of_int target)"
  from assms(1) obtain first rest where obs: "observations = first # rest"
    by (cases observations) auto
  have valid: "\<forall>ob \<in> set observations. is_Instant (timestamp ob)"
    using assms(2) by blast
  have vf: "is_Instant (timestamp first)"
    using valid obs by simp
  have pc: "pickClosest (Some observations) (Instant target)
      = Some (pickClosest_loop ?T (first # rest) first (Fin (of_int (?d first))))"
    by (simp add: pickClosest_def obs Let_def diff_Instant [OF vf] del: pickClosest_loop.simps)
  from pickClosest_loop_first_minimum [where best = first and target = target, OF valid refl]
  show ?thesis
  proof (elim disjE conjE exE)
    assume "pickClosest_loop ?T observations first (Fin (of_int (?d first))) = first"
      and "\<forall>ob \<in> set observations. ?d first \<le> ?d ob"
    with pc obs have "observations = [] @ first # rest
        \<and> pickClosest (Some observations) (Instant target) = Some first
        \<and> (\<forall>ob \<in> set []. ?d first < ?d ob) \<and> (\<forall>ob \<in> set rest. ?d first \<le> ?d ob)"
      by simp
    then show ?thesis by blast
  next
    fix pre r post
    assume "observations = pre @ r # post"
      and "pickClosest_loop ?T observations first (Fin (of_int (?d first))) = r"
      and "\<forall>ob \<in> set pre. ?d r < ?d ob"
      and "\<forall>ob \<in> set post. ?d r \<le> ?d ob"
    with pc obs have "observations = pre @ r # post
        \<and> pickClosest (Some observations) (Instant target) = Some r
        \<and> (\<forall>ob \<in> set pre. ?d r < ?d ob) \<and> (\<forall>ob \<in> set post. ?d r \<le> ?d ob)"
      by simp
    then show ?thesis by blast
  qed
qed

theorem pickClosest_first_nearest_witness:
  "pickClosest (Some [obs_at 0, obs_at 5, obs_at 10]) (Instant 7) = Some (obs_at 5)
   \<and> pickClosest (Some [obs_at 0, obs_at 10]) (Instant 5) = Some (obs_at 0)
   \<and> pickClosest (Some [obs_at 10, obs_at 0]) (Instant 5) = Some (obs_at 10)"
proof -
  have t: "timestamp (obs_at t) = Instant t" for t
    by (simp add: obs_at_def)
  have a: "pickClosest (Some [obs_at 0, obs_at 5, obs_at 10]) (Instant 7) = Some (obs_at 5)"
    using pickClosest_first_nearest [of "[obs_at 0, obs_at 5, obs_at 10]" 7]
    by (auto simp: t Cons_eq_append_conv)
  have b: "pickClosest (Some [obs_at 0, obs_at 10]) (Instant 5) = Some (obs_at 0)"
    using pickClosest_first_nearest [of "[obs_at 0, obs_at 10]" 5]
    by (auto simp: t Cons_eq_append_conv)
  have c: "pickClosest (Some [obs_at 10, obs_at 0]) (Instant 5) = Some (obs_at 10)"
    using pickClosest_first_nearest [of "[obs_at 10, obs_at 0]" 5]
    by (auto simp: t Cons_eq_append_conv)
  from a b c show ?thesis by blast
qed

section \<open>Enrichment\<close>

lemma enrich_row_labels:
  "coach (fst (enrich_row cs ts g i s)) = cyclic_pick cs i"
  "training_type (fst (enrich_row cs ts g i s)) = cyclic_pick ts i"
  by (simp_all add: enrich_row_def Let_def case_prod_beta)

lemma enrich_row_session:
  "Session.truncate (fst (enrich_row cs ts g i s))
     = s\<lparr>spo2_pct := spo2_pct (fst (enrich_row cs ts g i s))\<rparr>"
  by (simp add: enrich_row_def Let_def case_prod_beta Session.truncate_def)

lemma enrich_row_derived:
  "duration_minutes (fst (enrich_row cs ts g i s)) = Num (minutesBetween (start_time s) (end_time s))"
  "pace_min_per_km (fst (enrich_row cs ts g i s))
     = paceMinPerKm (distance_km s) (Num (minutesBetween (start_time s) (end_time s)))"
  by (simp_all add: enrich_row_def Let_def case_prod_beta)

lemma enrich_row_spo2_kept:
  "\<not> nullish (spo2_pct s) \<Longrightarrow> spo2_pct (fst (enrich_row cs ts g i s)) = spo2_pct s"
  by (simp add: enrich_row_def Let_def case_prod_beta)

lemma synthetic_range:
  fixes r :: rat
  assumes "0 \<le> r" "r < 1"
  shows "94 \<le> \<lfloor>94 + r * 6\<rfloor>" "\<lfloor>94 + r * 6\<rfloor> \<le> 99"
proof -
  have "(94 :: rat) \<le> 94 + r * 6" using assms by linarith
  then show "94 \<le> \<lfloor>94 + r * 6\<rfloor>" by (simp add: le_floor_iff)
  have "94 + r * 6 < 100" using assms by linarith
  then show "\<lfloor>94 + r * 6\<rfloor> \<le> 99" by (simp add: floor_le_iff)
qed

lemma random_below_one_less:
  assumes "random_below_one g"
  shows "0 \<le> g n" "g n < 1"
proof -
  have "g n \<le> 1 - 1 / 2 ^ 48" and "0 \<le> g n"
    using assms by (simp_all add: random_below_one_def)
  moreover have "(1 :: rat) - 1 / 2 ^ 48 < 1"
    by simp
  ultimately show "0 \<le> g n" "g n < 1"
    by linarith+
qed

lemma enrich_row_spo2_synthetic:
  assumes "nullish (spo2_pct s)" "random_below_one g"
  shows "\<exists>n. 94 \<le> n \<and> n \<le> 99 \<and> spo2_pct (fst (enrich_row cs ts g i s)) = Num (Fin (of_int n))"
proof -
  have r: "0 \<le> g 0" "g 0 < 1"
    using assms(2) by (rule random_below_one_less)+
  have "spo2_pct (fst (enrich_row cs ts g i s)) = Num (Fin (of_int \<lfloor>94 + g 0 * 6\<rfloor>))"
    using assms(1) by (simp add: enrich_row_def Let_def case_prod_beta Math_random_def)
  with synthetic_range [OF r] show ?thesis by blast
qed

lemma enrich_row_rng:
  "random_below_one g \<Longrightarrow> random_below_one (snd (enrich_row cs ts g i s))"
  by (simp add: enrich_row_def Let_def case_prod_beta Math_random_def random_below_one_def)

lemma enrich_from_length:
  "length (fst (enrich_from cs ts k data g)) = length data"
  by (induction data arbitrary: k g) (simp_all add: case_prod_beta Let_def)

text \<open>
  Every row of the result is the callback applied to the element at the same position and to
  its index, on some state of the random source.
\<close>

lemma enrich_from_nth:
  assumes "i < length data"
  shows "\<exists>g'. (random_below_one g \<longrightarrow> random_below_one g')
            \<and> fst (enrich_from cs ts k data g) ! i = fst (enrich_row cs ts g' (k + i) (data ! i))"
  using assms
proof (induction data arbitrary: k g i)
  case Nil
  then show ?case by simp
next
  case (Cons s rest)
  show ?case
  proof (cases i)
    case 0
    then have "fst (enrich_from cs ts k (s # rest) g) ! i = fst (enrich_row cs ts g (k + i) ((s # rest) ! i))"
      by (simp add: case_prod_beta Let_def)
    then show ?thesis by blast
  next
    case (Suc j)
    let ?g1 = "snd (enrich_row cs ts g k s)"
    from Suc Cons.prems have "j < length rest" by simp
    from Cons.IH [OF this, of ?g1 "Suc k"] obtain g' where
      g': "random_below_one ?g1 \<longrightarrow> random_below_one g'"
        "fst (enrich_from cs ts (Suc k) rest ?g1) ! j = fst (enrich_row cs ts g' (Suc k + j) (rest ! j))"
      by blast
    have "fst (enrich_from cs ts k (s # rest) g) ! i = fst (enrich_from cs ts (Suc k) rest ?g1) ! j"
      by (simp add: Suc case_prod_beta Let_def)
    with g'(2) Suc have "fst (enrich_from cs ts k (s # rest) g) ! i
        = fst (enrich_row cs ts g' (k + i) ((s # rest) ! i))"
      by simp
    moreover have "random_below_one g \<longrightarrow> random_below_one g'"
      using g'(1) enrich_row_rng by blast
    ultimately show ?thesis by blast
  qed
qed

lemma cyclic_pick_nonempty:
  "table \<noteq> [] \<Longrightarrow> cyclic_pick table i = Some (table ! (i mod length table))"
  by (simp add: cyclic_pick_def)

text \<open>
  Claim C3. For non-empty label tables the enriched list has the length of the input, and
  its element at position \<open>i\<close> is the input element at position \<open>i\<close> (every session field but
  the blood oxygen is the input's) with coach \<open>coachTable[i mod |coachTable|]\<close> and training
  type \<open>trainingTable[i mod |trainingTable|]\<close>. With the page's own tables, five sessions get
  the coaches at indices 0, 1, 2, 0, 1.
\<close>

theorem enriched_cyclic_labels:
  assumes "coachTable \<noteq> []" and "trainingTable \<noteq> []"
  shows "length (fst (enrich_from coachTable trainingTable 0 data g)) = length data
    \<and> (\<forall>i < length data.
          coach (fst (enrich_from coachTable trainingTable 0 data g) ! i)
            = Some (coachTable ! (i mod length coachTable))
          \<and> training_type (fst (enrich_from coachTable trainingTable 0 data g) ! i)
            = Some (trainingTable ! (i mod length trainingTable))
          \<and> Session.truncate (fst (enrich_from coachTable trainingTable 0 data g) ! i)
            = (data ! i)\<lparr>spo2_pct := spo2_pct (fst (enrich_from coachTable trainingTable 0 data g) ! i)\<rparr>)
    \<and> (length data = 5 \<longrightarrow>
          map coach (enriched data g)
            = [Some (coaches ! 0), Some (coaches ! 1), Some (coaches ! 2),
               Some (coaches ! 0), Some (coaches ! 1)])"
proof (intro conjI allI impI)
  show "length (fst (enrich_from coachTable trainingTable 0 data g)) = length data"
    by (rule enrich_from_length)
next
  fix i assume i: "i < length data"
  from enrich_from_nth [OF i, of g coachTable trainingTable 0] obtain g' where
    row: "fst (enrich_from coachTable trainingTable 0 data g) ! i
            = fst (enrich_row coachTable trainingTable g' i (data ! i))"
    by auto
  show "coach (fst (enrich_from coachTable trainingTable 0 data g) ! i)
      = Some (coachTable ! (i mod length coachTable))"
    by (simp add: row enrich_row_labels cyclic_pick_nonempty [OF assms(1)])
  show "training_type (fst (enrich_from coachTable trainingTable 0 data g) ! i)
      = Some (trainingTable ! (i mod length trainingTable))"
    by (simp add: row enrich_row_labels cyclic_pick_nonempty [OF assms(2)])
  show "Session.truncate (fst (enrich_from coachTable trainingTable 0 data g) ! i)
      = (data ! i)\<lparr>spo2_pct := spo2_pct (fst (enrich_from coachTable trainingTable 0 data g) ! i)\<rparr>"
    unfolding row by (rule enrich_row_session)
next
  assume five: "length data = 5"
  have "map coach (enriched data g) = map (cyclic_pick coaches) [0..<length data]"
  proof (rule nth_equalityI)
    show "length (map coach (enriched data g)) = length (map (cyclic_pick coaches) [0..<length data])"
      by (simp add: enriched_def enrich_from_length)
  next
    fix i assume "i < length (map coach (enriched data g))"
    then have i: "i < length data"
      by (simp add: enriched_def enrich_from_length)
    from enrich_from_nth [OF i, of g coaches trainings 0] obtain g' where
      "fst (enrich_from coaches trainings 0 data g) ! i = fst (enrich_row coaches trainings g' i (data ! i))"
      by auto
    with i show "map coach (enriched data g) ! i = map (cyclic_pick coaches) [0..<length data] ! i"
      by (simp add: enriched_def enrich_from_length enrich_row_labels)
  qed
  also have "[0..<length data] = [0, 1, 2, 3, 4]"
    unfolding five by (simp add: upt_rec)
  finally show "map coach (enriched data g)
      = [Some (coaches ! 0), Some (coaches ! 1), Some (coaches ! 2), Some (coaches ! 0), Some (coaches ! 1)]"
    by (simp add: cyclic_pick_def coaches_def)
qed

theorem enriched_cyclic_labels_witness:
  "length (enriched (map (\<lambda>i. session_at i 0 60000 Undefined Undefined) [1, 2, 3, 4, 5]) (\<lambda>n. 1 / 2)) = 5
   \<and> map coach (enriched (map (\<lambda>i. session_at i 0 60000 Undefined Undefined) [1, 2, 3, 4, 5]) (\<lambda>n. 1 / 2))
       = [Some ''Sarah Eastern'', Some ''John Mitchell'', Some ''Linda Carter'',
          Some ''Sarah Eastern'', Some ''John Mitchell'']
   \<and> training_type (enriched (map (\<lambda>i. session_at i 0 60000 Undefined Undefined) [1, 2, 3, 4, 5]) (\<lambda>n. 1 / 2) ! 4)
       = Some ''Tempo''
   \<and> id' (enriched (map (\<lambda>i. session_at i 0 60000 Undefined Undefined) [1, 2, 3, 4, 5]) (\<lambda>n. 1 / 2) ! 4) = 5"
proof -
  define D where "D = map (\<lambda>i. session_at i 0 60000 Undefined Undefined) [1, 2, 3, 4, 5]"
  define g :: rng where "g = (\<lambda>n. 1 / 2)"
  have len: "length D = 5" and four: "(4 :: nat) < length D" and d4: "id' (D ! 4) = 5"
    by (simp_all add: D_def session_at_def)
  have ne: "coaches \<noteq> []" "trainings \<noteq> []"
    by (simp_all add: coaches_def trainings_def)
  note t = enriched_cyclic_labels [OF ne, of D g, folded enriched_def]
  from t have "length (enriched D g) = 5"
    by (simp add: len)
  moreover from t len have "map coach (enriched D g)
      = [Some ''Sarah Eastern'', Some ''John Mitchell'', Some ''Linda Carter'',
         Some ''Sarah Eastern'', Some ''John Mitchell'']"
    by (simp add: coaches_def)
  moreover from t four have "training_type (enriched D g ! 4) = Some (trainings ! (4 mod length trainings))"
    by blast
  then have "training_type (enriched D g ! 4) = Some ''Tempo''"
    by (simp add: trainings_def)
  moreover from t four have "Session.truncate (enriched D g ! 4)
      = (D ! 4)\<lparr>spo2_pct := spo2_pct (enriched D g ! 4)\<rparr>"
    by blast
  then have "id' (Session.truncate (enriched D g ! 4)) = id' (D ! 4)"
    by simp
  then have "id' (enriched D g ! 4) = 5"
    by (simp add: Session.truncate_def d4)
  ultimately show ?thesis
    unfolding D_def g_def by blast
qed

text \<open>
  Claim C9. A blood-oxygen value that is a number, zero included, is the value of the enriched
  row, whatever \<open>Math.random\<close> returns. When the field is \<open>null\<close> or \<open>undefined\<close>, and
  \<open>Math.random\<close> returns values from 0 to \<open>1 - 2\<^sup>-\<^sup>4\<^sup>8\<close> (\<open>random_below_one\<close>), the enriched
  value is a whole number from 94 to 99.
\<close>

theorem enriched_spo2_nullish_only:
  assumes "i < length data"
  shows "(\<forall>v. spo2_pct (data ! i) = Num v \<longrightarrow> spo2_pct (enriched data g ! i) = Num v)
    \<and> (spo2_pct (data ! i) = Num (Fin 0) \<longrightarrow> spo2_pct (enriched data g ! i) = Num (Fin 0))
    \<and> (nullish (spo2_pct (data ! i)) \<and> random_below_one g \<longrightarrow>
         (\<exists>n. 94 \<le> n \<and> n \<le> 99 \<and> spo2_pct (enriched data g ! i) = Num (Fin (of_int n))))"
proof -
  from enrich_from_nth [OF assms, of g coaches trainings 0] obtain g' where
    g': "random_below_one g \<longrightarrow> random_below_one g'"
    and row: "enriched data g ! i = fst (enrich_row coaches trainings g' i (data ! i))"
    by (auto simp: enriched_def)
  have kept: "spo2_pct (enriched data g ! i) = Num v" if "spo2_pct (data ! i) = Num v" for v
    using that by (simp add: row enrich_row_spo2_kept nullish_def)
  have synth: "\<exists>n. 94 \<le> n \<and> n \<le> 99 \<and> spo2_pct (enriched data g ! i) = Num (Fin (of_int n))"
    if "nullish (spo2_pct (data ! i))" "random_below_one g"
    unfolding row using that g' by (intro enrich_row_spo2_synthetic) auto
  from kept synth show ?thesis by blast
qed

theorem enriched_spo2_nullish_only_witness:
  "spo2_pct (enriched [session_at 1 0 60000 Undefined (Num (Fin 0)),
                       session_at 2 0 60000 Undefined Null] (\<lambda>n. 1 / 2) ! 0) = Num (Fin 0)
   \<and> (\<exists>n. 94 \<le> n \<and> n \<le> 99
        \<and> spo2_pct (enriched [session_at 1 0 60000 Undefined (Num (Fin 0)),
                               session_at 2 0 60000 Undefined Null] (\<lambda>n. 1 / 2) ! 1)
            = Num (Fin (of_int n)))"
proof -
  define D where "D = [session_at 1 0 60000 Undefined (Num (Fin 0)), session_at 2 0 60000 Undefined Null]"
  define g :: rng where "g = (\<lambda>n. 1 / 2)"
  have i: "0 < length D" "1 < length D"
    by (simp_all add: D_def)
  have s0: "spo2_pct (D ! 0) = Num (Fin 0)" and s1: "nullish (spo2_pct (D ! 1))"
    by (simp_all add: D_def session_at_def nullish_def)
  have u: "random_below_one g"
    by (simp add: random_below_one_def g_def)
  from enriched_spo2_nullish_only [OF i(1), of g] s0
  have "spo2_pct (enriched D g ! 0) = Num (Fin 0)"
    by blast
  moreover from enriched_spo2_nullish_only [OF i(2), of g] s1 u
  have "\<exists>n. 94 \<le> n \<and> n \<le> 99 \<and> spo2_pct (enriched D g ! 1) = Num (Fin (of_int n))"
    by blast
  ultimately show ?thesis
    unfolding D_def g_def by blast
qed

end
